theory Spec2Isabelle
  imports Main "HOL-Library.Multiset"
begin

section \<open>Circuit breaker (src/utils/CircuitBreaker.ts)\<close>

text \<open>
  JavaScript numbers that hold millisecond timestamps, durations and counters are modelled
  as unbounded integers. Every \<^verbatim>\<open>Date.now()\<close> of the source becomes an explicit argument
  \<open>now\<close>; every mutation of \<^verbatim>\<open>this\<close> becomes a returned, updated record. Console output
  is not part of the model.
\<close>

datatype CircuitState = CLOSED | OPEN | HALF_OPEN

record CircuitBreakerConfig =
  failureThreshold :: int
  recoveryTimeout :: int
  monitoringWindow :: int

record CircuitBreaker =
  state :: CircuitState
  failureCount :: int
  lastFailureTime :: int
  nextAttemptTime :: int
  config :: CircuitBreakerConfig
  providerName :: string

definition defaultConfig :: CircuitBreakerConfig where
  "defaultConfig = \<lparr>failureThreshold = 3, recoveryTimeout = 30000, monitoringWindow = 60000\<rparr>"

text \<open>The constructor: the fields' initialisers, then the configuration.\<close>

definition newCircuitBreaker :: "string \<Rightarrow> CircuitBreakerConfig \<Rightarrow> CircuitBreaker" where
  "newCircuitBreaker name cfg =
     \<lparr>state = CLOSED, failureCount = 0, lastFailureTime = 0, nextAttemptTime = 0,
      config = cfg, providerName = name\<rparr>"

definition canExecute :: "int \<Rightarrow> CircuitBreaker \<Rightarrow> bool \<times> CircuitBreaker" where
  "canExecute now cb =
     (case state cb of
        CLOSED \<Rightarrow> (True, cb)
      | OPEN \<Rightarrow>
          if now \<ge> nextAttemptTime cb then (True, cb\<lparr>state := HALF_OPEN\<rparr>)
          else (False, cb)
      | HALF_OPEN \<Rightarrow> (True, cb))"

definition recordSuccess :: "CircuitBreaker \<Rightarrow> CircuitBreaker" where
  "recordSuccess cb =
     (let cb1 = cb\<lparr>failureCount := 0\<rparr>
      in if state cb1 = HALF_OPEN then cb1\<lparr>state := CLOSED\<rparr> else cb1)"

definition recordFailure :: "int \<Rightarrow> CircuitBreaker \<Rightarrow> CircuitBreaker" where
  "recordFailure now cb =
     (let cb1 = (if now - lastFailureTime cb > monitoringWindow (config cb)
                 then cb\<lparr>failureCount := 0\<rparr> else cb);
          cb2 = cb1\<lparr>failureCount := failureCount cb1 + 1, lastFailureTime := now\<rparr>;
          cb3 = (if failureCount cb2 \<ge> failureThreshold (config cb2)
                 then cb2\<lparr>state := OPEN, nextAttemptTime := now + recoveryTimeout (config cb2)\<rparr>
                 else cb2)
      in if state cb3 = HALF_OPEN
         then cb3\<lparr>state := OPEN, nextAttemptTime := now + recoveryTimeout (config cb3)\<rparr>
         else cb3)"

definition reset :: "CircuitBreaker \<Rightarrow> CircuitBreaker" where
  "reset cb = cb\<lparr>state := CLOSED, failureCount := 0, lastFailureTime := 0, nextAttemptTime := 0\<rparr>"

text \<open>Calling \<open>recordFailure\<close> once at each of the given times, in order.\<close>

fun recordFailures :: "int list \<Rightarrow> CircuitBreaker \<Rightarrow> CircuitBreaker" where
  "recordFailures [] cb = cb"
| "recordFailures (t # ts) cb = recordFailures ts (recordFailure t cb)"

text \<open>
  Calling \<open>canExecute\<close> once at each of the given times, in order. The result lists, per
  call, the returned flag and whether that call moved the breaker from OPEN to HALF_OPEN.
\<close>

fun canExecutes :: "int list \<Rightarrow> CircuitBreaker \<Rightarrow> (bool \<times> bool) list \<times> CircuitBreaker" where
  "canExecutes [] cb = ([], cb)"
| "canExecutes (t # ts) cb =
     (let (r, cb') = canExecute t cb;
          moved = (state cb = OPEN \<and> state cb' = HALF_OPEN);
          (rs, cb'') = canExecutes ts cb'
      in ((r, moved) # rs, cb''))"

section \<open>Rate limiter (utils/RateLimiterCheck)\<close>

record RateLimitWindow =
  timestamps :: "int list"
  windowSize :: int
  maxRequests :: nat

text \<open>The module-level constant, as initialised.\<close>

definition rateLimitWindow0 :: RateLimitWindow where
  "rateLimitWindow0 = \<lparr>timestamps = [], windowSize = 60 * 1000, maxRequests = 10\<rparr>"

definition isRateLimited :: "int \<Rightarrow> RateLimitWindow \<Rightarrow> bool \<times> RateLimitWindow" where
  "isRateLimited now rl =
     (let rl1 = rl\<lparr>timestamps := filter (\<lambda>timestamp. now - timestamp < windowSize rl) (timestamps rl)\<rparr>
      in if length (timestamps rl1) \<ge> maxRequests rl1 then (True, rl1)
         else (False, rl1\<lparr>timestamps := timestamps rl1 @ [now]\<rparr>))"

text \<open>
  Calling \<open>isRateLimited\<close> once at each of the given times, in order: the returned flags
  and the final window.
\<close>

fun isRateLimitedCalls :: "int list \<Rightarrow> RateLimitWindow \<Rightarrow> bool list \<times> RateLimitWindow" where
  "isRateLimitedCalls [] rl = ([], rl)"
| "isRateLimitedCalls (t # ts) rl =
     (let (r, rl') = isRateLimited t rl;
          (rs, rl'') = isRateLimitedCalls ts rl'
      in (r # rs, rl''))"

text \<open>The times of the admitted calls (those that returned false), in call order.\<close>

definition admitted :: "int list \<Rightarrow> bool list \<Rightarrow> int list" where
  "admitted ts rs = map fst (filter (\<lambda>(t, r). \<not> r) (zip ts rs))"

text \<open>
  The invariant that relates the window to the history \<open>H\<close> of admitted call times, for
  calls made at times from \<open>t0\<close> on: pruning the recorded timestamps at any later time
  gives the same list as pruning the history; only admitted times are recorded; and no
  half-open interval of length \<open>W\<close> holds more than \<open>M\<close> admitted times.
\<close>

definition windowInv :: "int \<Rightarrow> nat \<Rightarrow> RateLimitWindow \<Rightarrow> int list \<Rightarrow> int \<Rightarrow> bool" where
  "windowInv W M rl H t0 \<longleftrightarrow>
     windowSize rl = W \<and> maxRequests rl = M
     \<and> (\<forall>t\<ge>t0. filter (\<lambda>x. t - x < W) (timestamps rl) = filter (\<lambda>x. t - x < W) H)
     \<and> mset (timestamps rl) \<subseteq># mset H
     \<and> (\<forall>a. length (filter (\<lambda>x. a \<le> x \<and> x < a + W) H) \<le> M)
     \<and> (\<forall>a. length (filter (\<lambda>x. a < x \<and> x \<le> a + W) H) \<le> M)"

section \<open>The process: clock, module state, providers\<close>

text \<open>
  What the service reads and writes outside its own object: the clock behind
  \<^verbatim>\<open>Date.now()\<close>, the module-level set \<^verbatim>\<open>SentRequests\<close>, the module-level
  \<^verbatim>\<open>rateLimitWindow\<close>, and the random draws that decide whether a mock provider throws.
  \<open>outcomes k\<close> tells whether the \<open>k\<close>-th provider call of the process succeeds
  (its \<^verbatim>\<open>Math.random()\<close> exceeded the provider's threshold); \<open>calls\<close> counts the provider
  calls made so far. \<open>events\<close> records, in order, each provider call and each delay.
  The clock advances by exactly the requested time at each delay and is otherwise constant
  during one call of the service. Calls of the service are taken one at a time: the
  interleaving of concurrent requests at the \<^verbatim>\<open>await\<close> points is not modelled.
\<close>

datatype Provider = SendGridProvider | MailgunProvider

datatype Event = Send Provider | Wait int

record World =
  clock :: int
  SentRequests :: "string set"
  rateLimitWindow :: RateLimitWindow
  outcomes :: "nat \<Rightarrow> bool"
  calls :: nat
  events :: "Event list"

definition isDuplicate :: "string \<Rightarrow> World \<Rightarrow> bool" where
  "isDuplicate requestid w = (requestid \<in> SentRequests w)"

definition markAsSent :: "string \<Rightarrow> World \<Rightarrow> World" where
  "markAsSent requestid w = w\<lparr>SentRequests := insert requestid (SentRequests w)\<rparr>"

text \<open>The message of the error each provider class throws.\<close>

fun failureMessage :: "Provider \<Rightarrow> string" where
  "failureMessage SendGridProvider = ''SendGrid failed to send email''"
| "failureMessage MailgunProvider = ''Mailgun failed to send email''"

text \<open>
  \<^verbatim>\<open>provider.sendEmail(email)\<close>: \<open>None\<close> when it returns, \<open>Some message\<close> when it throws.
\<close>

definition provider_sendEmail :: "Provider \<Rightarrow> World \<Rightarrow> string option \<times> World" where
  "provider_sendEmail provider w =
     (let success = outcomes w (calls w);
          w' = w\<lparr>calls := Suc (calls w), events := events w @ [Send provider]\<rparr>
      in if \<not> success then (Some (failureMessage provider), w') else (None, w'))"

definition delay :: "int \<Rightarrow> World \<Rightarrow> World" where
  "delay ms w = w\<lparr>clock := clock w + ms, events := events w @ [Wait ms]\<rparr>"

section \<open>Email service (services/EmailService)\<close>

record EmailRequest =
  rq_to :: string
  rq_subject :: string
  rq_body :: string
  requestId :: string

text \<open>
  \<^verbatim>\<open>Omit<EmailStatus, 'timestamp' | 'requestId'>\<close>, and \<^verbatim>\<open>EmailStatus\<close> as its extension.
  Optional fields are options.
\<close>

record SendResult =
  success :: bool
  providerUsed :: "string option"
  attempts :: nat
  errorMessage :: "string option"

record EmailStatus = SendResult +
  timestamp :: int
  statusRequestId :: string

record EmailService =
  sendGridCircuitBreaker :: CircuitBreaker
  mailgunCircuitBreaker :: CircuitBreaker
  maxRetries :: nat
  baseDelay :: int

definition newEmailService :: EmailService where
  "newEmailService =
     \<lparr>sendGridCircuitBreaker = newCircuitBreaker ''SendGrid''
        \<lparr>failureThreshold = 3, recoveryTimeout = 30000, monitoringWindow = 60000\<rparr>,
      mailgunCircuitBreaker = newCircuitBreaker ''Mailgun''
        \<lparr>failureThreshold = 3, recoveryTimeout = 30000, monitoringWindow = 60000\<rparr>,
      maxRetries = 3, baseDelay = 1000\<rparr>"

definition calculateExponentialBackoff :: "EmailService \<Rightarrow> nat \<Rightarrow> int" where
  "calculateExponentialBackoff svc attemptNumber = baseDelay svc * 2 ^ attemptNumber"

text \<open>
  The \<^verbatim>\<open>for\<close> loop of \<^verbatim>\<open>attemptSendWithCircuitBreaker\<close> from index \<open>i\<close> on, together with
  the code after the loop. A provider call that returns leaves the loop with the success
  result; when the loop runs out, the failure is recorded with the breaker.
\<close>

function attemptLoop ::
  "EmailService \<Rightarrow> Provider \<Rightarrow> string \<Rightarrow> nat \<Rightarrow> nat \<Rightarrow> string \<Rightarrow> CircuitBreaker \<Rightarrow> World
   \<Rightarrow> SendResult \<times> CircuitBreaker \<times> World" where
  "attemptLoop svc provider name i atts lastError cb w =
     (if i < maxRetries svc then
        (case provider_sendEmail provider w of
           (None, w1) \<Rightarrow>
             (\<lparr>success = True, providerUsed = Some name, attempts = atts + 1,
               errorMessage = None\<rparr>,
              recordSuccess cb, w1)
         | (Some message, w1) \<Rightarrow>
             attemptLoop svc provider name (i + 1) (atts + 1) message cb
               (if int i < int (maxRetries svc) - 1
                then delay (calculateExponentialBackoff svc i) w1 else w1))
      else
        (\<lparr>success = False, providerUsed = Some name, attempts = atts,
          errorMessage = Some lastError\<rparr>,
         recordFailure (clock w) cb, w))"
  by pat_completeness auto
termination
  by (relation "measure (\<lambda>(svc, provider, name, i, atts, lastError, cb, w). maxRetries svc - i)") auto

declare attemptLoop.simps [simp del]

definition attemptSendWithCircuitBreaker ::
  "EmailService \<Rightarrow> Provider \<Rightarrow> CircuitBreaker \<Rightarrow> string \<Rightarrow> EmailRequest \<Rightarrow> World
   \<Rightarrow> SendResult \<times> CircuitBreaker \<times> World" where
  "attemptSendWithCircuitBreaker svc provider circuitBreaker name emailRequest w =
     (case canExecute (clock w) circuitBreaker of
        (False, cb) \<Rightarrow>
          (\<lparr>success = False, providerUsed = Some name, attempts = 0,
            errorMessage = Some (''Circuit breaker is OPEN - '' @ name @ '' temporarily unavailable'')\<rparr>,
           cb, w)
      | (True, cb) \<Rightarrow> attemptLoop svc provider name 0 0 [] cb w)"

text \<open>How a template literal prints an optional string.\<close>

definition interpolate :: "string option \<Rightarrow> string" where
  "interpolate m = (case m of None \<Rightarrow> ''undefined'' | Some s \<Rightarrow> s)"

definition withStamp :: "SendResult \<Rightarrow> int \<Rightarrow> string \<Rightarrow> EmailStatus" where
  "withStamp r startTime rid =
     \<lparr>success = success r, providerUsed = providerUsed r, attempts = attempts r,
      errorMessage = errorMessage r, timestamp = startTime, statusRequestId = rid\<rparr>"

definition sendEmail :: "EmailRequest \<Rightarrow> EmailService \<Rightarrow> World \<Rightarrow> EmailStatus \<times> EmailService \<times> World" where
  "sendEmail emailRequest svc w =
     (let startTime = clock w in
      if isDuplicate (requestId emailRequest) w then
        (\<lparr>success = False, providerUsed = None, attempts = 0,
          errorMessage = Some ''Duplicate request - email already sent'',
          timestamp = startTime, statusRequestId = requestId emailRequest\<rparr>, svc, w)
      else
        let (limited, rl) = isRateLimited (clock w) (rateLimitWindow w);
            w0 = w\<lparr>rateLimitWindow := rl\<rparr>
        in if limited then
          (\<lparr>success = False, providerUsed = None, attempts = 0,
            errorMessage = Some ''Rate limit exceeded - please try again later'',
            timestamp = startTime, statusRequestId = requestId emailRequest\<rparr>, svc, w0)
        else
          let (primaryResult, sg, w1) =
                attemptSendWithCircuitBreaker svc SendGridProvider (sendGridCircuitBreaker svc)
                  ''SendGrid'' emailRequest w0;
              svc1 = svc\<lparr>sendGridCircuitBreaker := sg\<rparr>
          in if success primaryResult then
            (withStamp primaryResult startTime (requestId emailRequest), svc1,
             markAsSent (requestId emailRequest) w1)
          else
            let (fallbackResult, mg, w2) =
                  attemptSendWithCircuitBreaker svc1 MailgunProvider (mailgunCircuitBreaker svc1)
                    ''Mailgun'' emailRequest w1;
                svc2 = svc1\<lparr>mailgunCircuitBreaker := mg\<rparr>
            in if success fallbackResult then
              (withStamp fallbackResult startTime (requestId emailRequest), svc2,
               markAsSent (requestId emailRequest) w2)
            else
              (\<lparr>success = False, providerUsed = Some ''Both providers failed or unavailable'',
                attempts = attempts primaryResult + attempts fallbackResult,
                errorMessage = Some (''Primary: '' @ interpolate (errorMessage primaryResult)
                                     @ '', Fallback: '' @ interpolate (errorMessage fallbackResult)),
                timestamp = startTime, statusRequestId = requestId emailRequest\<rparr>, svc2, w2))"

text \<open>
  \<^verbatim>\<open>a.canExecute() || b.canExecute()\<close>: the right operand is evaluated only when the left
  one is false.
\<close>

definition isAnyProviderAvailable :: "EmailService \<Rightarrow> World \<Rightarrow> bool \<times> EmailService" where
  "isAnyProviderAvailable svc w =
     (let (a, sg) = canExecute (clock w) (sendGridCircuitBreaker svc);
          svc1 = svc\<lparr>sendGridCircuitBreaker := sg\<rparr>
      in if a then (True, svc1)
         else let (b, mg) = canExecute (clock w) (mailgunCircuitBreaker svc1)
              in (b, svc1\<lparr>mailgunCircuitBreaker := mg\<rparr>))"

definition getBestAvailableProvider :: "EmailService \<Rightarrow> World \<Rightarrow> string option \<times> EmailService" where
  "getBestAvailableProvider svc w =
     (let (a, sg) = canExecute (clock w) (sendGridCircuitBreaker svc);
          svc1 = svc\<lparr>sendGridCircuitBreaker := sg\<rparr>
      in if a then (Some ''SendGrid'', svc1)
         else let (b, mg) = canExecute (clock w) (mailgunCircuitBreaker svc1);
                  svc2 = svc1\<lparr>mailgunCircuitBreaker := mg\<rparr>
              in if b then (Some ''Mailgun'', svc2) else (None, svc2))"

definition resetCircuitBreakers :: "EmailService \<Rightarrow> EmailService" where
  "resetCircuitBreakers svc =
     svc\<lparr>sendGridCircuitBreaker := reset (sendGridCircuitBreaker svc),
         mailgunCircuitBreaker := reset (mailgunCircuitBreaker svc)\<rparr>"

section \<open>Concrete states\<close>

text \<open>
  The state of a freshly started process at time \<open>t\<close>, given the outcomes of the provider
  calls to come, and a request.
\<close>

definition startWorld :: "int \<Rightarrow> (nat \<Rightarrow> bool) \<Rightarrow> World" where
  "startWorld t oc =
     \<lparr>clock = t, SentRequests = {}, rateLimitWindow = rateLimitWindow0, outcomes = oc,
      calls = 0, events = []\<rparr>"

text \<open>Provider outcomes: every call succeeds; every call fails; only the fifth call succeeds.\<close>

definition allSucceed :: "nat \<Rightarrow> bool" where
  "allSucceed k = True"

definition allFail :: "nat \<Rightarrow> bool" where
  "allFail k = False"

definition onlyFifthSucceeds :: "nat \<Rightarrow> bool" where
  "onlyFifthSucceeds k = (k = 4)"

definition exampleRequest :: EmailRequest where
  "exampleRequest =
     \<lparr>rq_to = ''a@example.org'', rq_subject = ''Hello'', rq_body = ''Hi'', requestId = ''req-1''\<rparr>"

text \<open>The service after each breaker has recorded three failures at time 0: both are OPEN.\<close>

definition trippedService :: EmailService where
  "trippedService =
     newEmailService
       \<lparr>sendGridCircuitBreaker := recordFailures [0, 0, 0] (sendGridCircuitBreaker newEmailService),
        mailgunCircuitBreaker := recordFailures [0, 0, 0] (mailgunCircuitBreaker newEmailService)\<rparr>"

section \<open>Properties of the circuit breaker\<close>

lemma recordFailure_config [simp]: "config (recordFailure now cb) = config cb"
  by (simp add: recordFailure_def Let_def)

text \<open>
  C3. A breaker in state HALF_OPEN goes to OPEN on a single \<open>recordFailure\<close>, with
  \<open>nextAttemptTime = now + recoveryTimeout\<close>, whatever the failure count and the threshold
  are; on a single \<open>recordSuccess\<close> it goes to CLOSED with \<open>failureCount = 0\<close>.
\<close>

theorem half_open_probe_outcome:
  assumes "state cb = HALF_OPEN"
  shows "state (recordFailure now cb) = OPEN
       \<and> nextAttemptTime (recordFailure now cb) = now + recoveryTimeout (config cb)
       \<and> state (recordSuccess cb) = CLOSED
       \<and> failureCount (recordSuccess cb) = 0"
  using assms by (simp add: recordFailure_def recordSuccess_def Let_def)

theorem half_open_probe_outcome_witness:
  "state (newCircuitBreaker ''SendGrid'' defaultConfig\<lparr>state := HALF_OPEN\<rparr>) = HALF_OPEN
   \<and> state (recordFailure 5000 (newCircuitBreaker ''SendGrid'' defaultConfig\<lparr>state := HALF_OPEN\<rparr>)) = OPEN
   \<and> nextAttemptTime (recordFailure 5000 (newCircuitBreaker ''SendGrid'' defaultConfig\<lparr>state := HALF_OPEN\<rparr>)) = 35000
   \<and> failureCount (recordFailure 5000 (newCircuitBreaker ''SendGrid'' defaultConfig\<lparr>state := HALF_OPEN\<rparr>)) = 1
   \<and> state (recordSuccess (newCircuitBreaker ''SendGrid'' defaultConfig\<lparr>state := HALF_OPEN\<rparr>)) = CLOSED"
  using half_open_probe_outcome
          [of "newCircuitBreaker ''SendGrid'' defaultConfig\<lparr>state := HALF_OPEN\<rparr>" 5000]
  by (simp add: newCircuitBreaker_def defaultConfig_def recordFailure_def Let_def)

lemma recordFailure_count:
  "failureCount (recordFailure t cb) =
     (if t - lastFailureTime cb > monitoringWindow (config cb) then 1 else failureCount cb + 1)"
  by (simp add: recordFailure_def Let_def)

lemma recordFailure_lastFailureTime [simp]: "lastFailureTime (recordFailure t cb) = t"
  by (simp add: recordFailure_def Let_def)

lemma recordFailure_state:
  "state (recordFailure t cb) =
     (if failureCount (recordFailure t cb) \<ge> failureThreshold (config cb) then OPEN
      else if state cb = HALF_OPEN then OPEN else state cb)"
  by (simp add: recordFailure_def Let_def)

lemma recordFailure_trips:
  "failureCount (recordFailure t cb) \<ge> failureThreshold (config cb) \<Longrightarrow>
   state (recordFailure t cb) = OPEN
   \<and> nextAttemptTime (recordFailure t cb) = t + recoveryTimeout (config cb)"
  by (auto simp: recordFailure_def Let_def split: if_splits)

lemma recordFailures_append:
  "recordFailures (xs @ ys) cb = recordFailures ys (recordFailures xs cb)"
  by (induction xs arbitrary: cb) simp_all

lemma recordFailures_config [simp]: "config (recordFailures ts cb) = config cb"
  by (induction ts arbitrary: cb) simp_all

text \<open>A run of failures none of which finds the previous one stale.\<close>

lemma recordFailures_count:
  assumes "ts = [] \<or> hd ts - lastFailureTime cb \<le> monitoringWindow (config cb)"
    and "successively (\<lambda>a b. b - a \<le> monitoringWindow (config cb)) ts"
  shows "failureCount (recordFailures ts cb) = failureCount cb + int (length ts)"
  using assms
proof (induction ts arbitrary: cb)
  case Nil
  then show ?case by simp
next
  case (Cons t ts)
  have "failureCount (recordFailures ts (recordFailure t cb)) =
          failureCount (recordFailure t cb) + int (length ts)"
    using Cons.prems by (intro Cons.IH) (auto simp: successively_Cons)
  then show ?case using Cons.prems(1) by (simp add: recordFailure_count)
qed

lemma recordFailures_state:
  assumes "state cb = CLOSED \<or> state cb = OPEN"
    and "ts = [] \<or> hd ts - lastFailureTime cb \<le> monitoringWindow (config cb)"
    and "successively (\<lambda>a b. b - a \<le> monitoringWindow (config cb)) ts"
  shows "state (recordFailures ts cb) =
           (if state cb = OPEN
               \<or> (ts \<noteq> [] \<and> failureCount cb + int (length ts) \<ge> failureThreshold (config cb))
            then OPEN else CLOSED)"
  using assms
proof (induction ts arbitrary: cb)
  case Nil
  then show ?case by auto
next
  case (Cons t ts)
  let ?cb1 = "recordFailure t cb"
  have c1: "failureCount ?cb1 = failureCount cb + 1"
    using Cons.prems(2) by (simp add: recordFailure_count)
  have s1: "state ?cb1 = (if failureCount cb + 1 \<ge> failureThreshold (config cb) then OPEN else state cb)"
    using Cons.prems(1) c1 by (auto simp: recordFailure_state)
  have "state (recordFailures ts ?cb1) =
           (if state ?cb1 = OPEN
               \<or> (ts \<noteq> [] \<and> failureCount ?cb1 + int (length ts) \<ge> failureThreshold (config ?cb1))
            then OPEN else CLOSED)"
    using Cons.prems s1 by (intro Cons.IH) (auto simp: successively_Cons)
  then show ?case using Cons.prems(1) by (auto simp: c1 s1)
qed

lemma pairwise_successively:
  assumes "\<forall>x\<in>set ts. \<forall>y\<in>set ts. P x y"
  shows "successively P ts"
  using assms by (induction P ts rule: successively.induct) auto

text \<open>
  C1 (amended). Take a breaker that is CLOSED (its failure count, as always, not negative)
  with a threshold of at least one. Recording exactly \<open>failureThreshold\<close> failures, at times
  that lie within \<open>monitoringWindow\<close> of one another, leaves it OPEN with
  \<open>nextAttemptTime\<close> equal to the time of the last failure plus \<open>recoveryTimeout\<close>. After
  one failure fewer (all but the last) it is still CLOSED exactly when no earlier failure
  counts any more: the failure count was 0 at the start, or the first of the failures
  comes more than \<open>monitoringWindow\<close> after \<open>lastFailureTime\<close> and so resets the count (or
  the threshold is 1, and one fewer is none).
\<close>

theorem threshold_failures_open:
  assumes closed: "state cb = CLOSED" and nonneg: "0 \<le> failureCount cb"
    and thr: "1 \<le> failureThreshold (config cb)"
    and len: "int (length ts) = failureThreshold (config cb)"
    and near: "\<forall>x\<in>set ts. \<forall>y\<in>set ts. \<bar>x - y\<bar> \<le> monitoringWindow (config cb)"
  shows "state (recordFailures ts cb) = OPEN
       \<and> nextAttemptTime (recordFailures ts cb) = last ts + recoveryTimeout (config cb)
       \<and> (state (recordFailures (butlast ts) cb) = CLOSED \<longleftrightarrow>
            failureThreshold (config cb) = 1 \<or> failureCount cb = 0
            \<or> hd ts - lastFailureTime cb > monitoringWindow (config cb))"
proof -
  let ?W = "monitoringWindow (config cb)"
  let ?n = "failureThreshold (config cb)"
  from thr len obtain t rest where ts: "ts = t # rest" by (cases ts) auto
  have "\<forall>x\<in>set ts. \<forall>y\<in>set ts. y - x \<le> ?W"
    using near by (metis abs_le_D1)
  then have succ: "successively (\<lambda>a b. b - a \<le> ?W) ts"
    by (rule pairwise_successively)
  let ?cb1 = "recordFailure t cb"
  have c1: "failureCount ?cb1 = (if t - lastFailureTime cb > ?W then 1 else failureCount cb + 1)"
    by (rule recordFailure_count)
  have c1_pos: "1 \<le> failureCount ?cb1" using nonneg by (simp add: c1)
  have s1: "state ?cb1 = (if failureCount ?cb1 \<ge> ?n then OPEN else CLOSED)"
    using closed by (simp add: recordFailure_state)
  have hd_rest: "rest = [] \<or> hd rest - lastFailureTime ?cb1 \<le> monitoringWindow (config ?cb1)"
    using succ ts by (auto simp: successively_Cons)
  have succ_rest: "successively (\<lambda>a b. b - a \<le> monitoringWindow (config ?cb1)) rest"
    using succ ts by (auto simp: successively_Cons)
  \<comment> \<open>all failures recorded\<close>
  have total: "failureCount (recordFailures ts cb) = failureCount ?cb1 + int (length rest)"
    using recordFailures_count [OF hd_rest succ_rest] ts by simp
  have reach: "?n \<le> failureCount (recordFailures ts cb)"
    using total c1_pos len ts by simp
  have "ts = butlast ts @ [last ts]" using ts by simp
  then have "recordFailures ts cb = recordFailures (butlast ts @ [last ts]) cb" by simp
  then have split: "recordFailures ts cb = recordFailure (last ts) (recordFailures (butlast ts) cb)"
    by (simp only: recordFailures_append recordFailures.simps)
  have first: "state (recordFailures ts cb) = OPEN
             \<and> nextAttemptTime (recordFailures ts cb) = last ts + recoveryTimeout (config cb)"
    using recordFailure_trips [of "recordFailures (butlast ts) cb" "last ts"] reach
    unfolding split [symmetric] by simp
  \<comment> \<open>one fewer\<close>
  have second: "state (recordFailures (butlast ts) cb) = CLOSED \<longleftrightarrow>
                  ?n = 1 \<or> failureCount cb = 0 \<or> hd ts - lastFailureTime cb > ?W"
  proof (cases rest)
    case Nil
    then show ?thesis using ts len closed by simp
  next
    case (Cons u rest')
    let ?bl = "butlast rest"
    have bl: "butlast ts = t # ?bl" using ts Cons by simp
    have succ_bl: "successively (\<lambda>a b. b - a \<le> monitoringWindow (config ?cb1)) ?bl"
      using succ_rest Cons
      by (metis append_butlast_last_id list.distinct(1) successively_append_iff)
    have hd_bl: "?bl = [] \<or> hd ?bl - lastFailureTime ?cb1 \<le> monitoringWindow (config ?cb1)"
      using hd_rest Cons by (cases rest') auto
    have st1: "state ?cb1 = CLOSED \<or> state ?cb1 = OPEN" using s1 by simp
    have n: "?n = int (length ?bl) + 2" using len ts Cons by auto
    have "state (recordFailures ?bl ?cb1) =
            (if state ?cb1 = OPEN
                \<or> (?bl \<noteq> [] \<and> failureCount ?cb1 + int (length ?bl) \<ge> failureThreshold (config ?cb1))
             then OPEN else CLOSED)"
      by (rule recordFailures_state [OF st1 hd_bl succ_bl])
    then have "state (recordFailures (butlast ts) cb) = CLOSED \<longleftrightarrow> failureCount ?cb1 < 2"
      using n c1_pos by (auto simp: bl s1 simp del: length_butlast)
    then show ?thesis using nonneg n ts by (auto simp: c1)
  qed
  from first second show ?thesis by simp
qed


theorem threshold_failures_open_witness:
  "state (recordFailures [1000, 2000, 61000] (newCircuitBreaker ''SendGrid'' defaultConfig)) = OPEN
   \<and> nextAttemptTime (recordFailures [1000, 2000, 61000] (newCircuitBreaker ''SendGrid'' defaultConfig)) = 91000
   \<and> state (recordFailures [1000, 2000] (newCircuitBreaker ''SendGrid'' defaultConfig)) = CLOSED
   \<and> state (recordFailures [0, 1000] (newCircuitBreaker ''SendGrid'' defaultConfig)) = CLOSED
   \<and> failureCount (recordFailures [0, 1000] (newCircuitBreaker ''SendGrid'' defaultConfig)) = 2
   \<and> state (recordFailures [2000, 3000, 4000]
        (recordFailures [0, 1000] (newCircuitBreaker ''SendGrid'' defaultConfig))) = OPEN
   \<and> nextAttemptTime (recordFailures [2000, 3000, 4000]
        (recordFailures [0, 1000] (newCircuitBreaker ''SendGrid'' defaultConfig))) = 34000
   \<and> state (recordFailures [70000, 71000]
        (recordFailures [0, 1000] (newCircuitBreaker ''SendGrid'' defaultConfig))) = CLOSED"
  using threshold_failures_open
          [of "newCircuitBreaker ''SendGrid'' defaultConfig" "[1000, 2000, 61000]"]
        threshold_failures_open
          [of "recordFailures [0, 1000] (newCircuitBreaker ''SendGrid'' defaultConfig)"
              "[2000, 3000, 4000]"]
        threshold_failures_open
          [of "recordFailures [0, 1000] (newCircuitBreaker ''SendGrid'' defaultConfig)"
              "[70000, 71000, 72000]"]
  by (simp add: newCircuitBreaker_def defaultConfig_def recordFailure_def Let_def)

text \<open>
  C1 as stated covers every CLOSED breaker. A breaker that has recorded failures at times
  0 and 1000 is CLOSED with a count of 2; with the threshold 3, the first of two further
  failures inside the window already opens it.
\<close>

theorem one_fewer_failure_counterexample:
  "state (recordFailures [0, 1000] (newCircuitBreaker ''SendGrid'' defaultConfig)) = CLOSED
   \<and> int (length [2000, 3000, 4000 :: int]) =
       failureThreshold (config (recordFailures [0, 1000] (newCircuitBreaker ''SendGrid'' defaultConfig)))
   \<and> \<bar>4000 - 2000\<bar> \<le>
       monitoringWindow (config (recordFailures [0, 1000] (newCircuitBreaker ''SendGrid'' defaultConfig)))
   \<and> state (recordFailures (butlast [2000, 3000, 4000])
        (recordFailures [0, 1000] (newCircuitBreaker ''SendGrid'' defaultConfig))) \<noteq> CLOSED"
  by (simp add: newCircuitBreaker_def defaultConfig_def recordFailure_def Let_def)

lemma canExecutes_denied:
  assumes "state cb = OPEN" and "\<forall>t\<in>set pre. t < nextAttemptTime cb"
  shows "canExecutes pre cb = (map (\<lambda>t. (False, False)) pre, cb)"
  using assms by (induction pre) (auto simp: canExecute_def)

lemma canExecutes_half_open:
  assumes "state cb = HALF_OPEN"
  shows "canExecutes post cb = (map (\<lambda>t. (True, False)) post, cb)"
  using assms by (induction post) (auto simp: canExecute_def)

lemma canExecutes_append:
  "canExecutes (xs @ ys) cb =
     (let (rs, cb') = canExecutes xs cb; (rs', cb'') = canExecutes ys cb' in (rs @ rs', cb''))"
  by (induction xs arbitrary: cb) (auto simp: Let_def split: prod.splits)

text \<open>
  C2. For a breaker in state OPEN: \<open>canExecute\<close> at a time before \<open>nextAttemptTime\<close> returns
  false and changes nothing; at a time from \<open>nextAttemptTime\<close> on it returns true and sets
  the state to HALF_OPEN. In any sequence of calls, the first call at such a time is the
  one and only call that makes this transition: the calls before it are denied, and the
  calls after it find the breaker HALF_OPEN, are admitted, and leave it as it is.
\<close>

theorem open_breaker_admits_once:
  assumes "state cb = OPEN"
  shows "(now < nextAttemptTime cb \<longrightarrow> canExecute now cb = (False, cb))
       \<and> (now \<ge> nextAttemptTime cb \<longrightarrow> canExecute now cb = (True, cb\<lparr>state := HALF_OPEN\<rparr>))
       \<and> ((\<forall>t\<in>set pre. t < nextAttemptTime cb) \<and> now \<ge> nextAttemptTime cb \<longrightarrow>
            canExecutes (pre @ now # post) cb =
              (map (\<lambda>t. (False, False)) pre @ (True, True) # map (\<lambda>t. (True, False)) post,
               cb\<lparr>state := HALF_OPEN\<rparr>))"
proof (intro conjI impI)
  show "canExecute now cb = (False, cb)" if "now < nextAttemptTime cb"
    using assms that by (simp add: canExecute_def)
  show flip: "canExecute now cb = (True, cb\<lparr>state := HALF_OPEN\<rparr>)" if "now \<ge> nextAttemptTime cb"
    using assms that by (simp add: canExecute_def)
  show "canExecutes (pre @ now # post) cb =
          (map (\<lambda>t. (False, False)) pre @ (True, True) # map (\<lambda>t. (True, False)) post,
           cb\<lparr>state := HALF_OPEN\<rparr>)"
    if h: "(\<forall>t\<in>set pre. t < nextAttemptTime cb) \<and> now \<ge> nextAttemptTime cb"
  proof -
    have a: "canExecutes pre cb = (map (\<lambda>t. (False, False)) pre, cb)"
      using assms h by (intro canExecutes_denied) auto
    have b: "canExecutes post (cb\<lparr>state := HALF_OPEN\<rparr>) =
               (map (\<lambda>t. (True, False)) post, cb\<lparr>state := HALF_OPEN\<rparr>)"
      by (intro canExecutes_half_open) simp
    show ?thesis
      using assms h by (simp add: canExecutes_append a b flip)
  qed
qed

theorem open_breaker_admits_once_witness:
  "canExecute 29999 (recordFailures [0, 0, 0] (newCircuitBreaker ''SendGrid'' defaultConfig))
     = (False, recordFailures [0, 0, 0] (newCircuitBreaker ''SendGrid'' defaultConfig))
   \<and> fst (canExecute 30000 (recordFailures [0, 0, 0] (newCircuitBreaker ''SendGrid'' defaultConfig)))
   \<and> state (snd (canExecute 30000 (recordFailures [0, 0, 0] (newCircuitBreaker ''SendGrid'' defaultConfig))))
       = HALF_OPEN
   \<and> fst (canExecutes [10, 29999, 30000, 30001, 5]
            (recordFailures [0, 0, 0] (newCircuitBreaker ''SendGrid'' defaultConfig)))
       = [(False, False), (False, False), (True, True), (True, False), (True, False)]"
  using open_breaker_admits_once
          [of "recordFailures [0, 0, 0] (newCircuitBreaker ''SendGrid'' defaultConfig)" 29999 "[]" "[]"]
        open_breaker_admits_once
          [of "recordFailures [0, 0, 0] (newCircuitBreaker ''SendGrid'' defaultConfig)" 30000
              "[10, 29999]" "[30001, 5]"]
  by (simp add: newCircuitBreaker_def defaultConfig_def recordFailure_def Let_def)

section \<open>Properties of the email service\<close>

lemma provider_sendEmail_ok:
  "outcomes w (calls w) \<Longrightarrow>
   provider_sendEmail p w = (None, w\<lparr>calls := Suc (calls w), events := events w @ [Send p]\<rparr>)"
  by (simp add: provider_sendEmail_def)

lemma provider_sendEmail_throws:
  "\<not> outcomes w (calls w) \<Longrightarrow>
   provider_sendEmail p w =
     (Some (failureMessage p), w\<lparr>calls := Suc (calls w), events := events w @ [Send p]\<rparr>)"
  by (simp add: provider_sendEmail_def)

lemma attemptLoop_exhausted:
  "\<not> i < maxRetries svc \<Longrightarrow>
   attemptLoop svc p name i atts le cb w =
     (\<lparr>success = False, providerUsed = Some name, attempts = atts, errorMessage = Some le\<rparr>,
      recordFailure (clock w) cb, w)"
  by (subst attemptLoop.simps) simp

lemma attemptLoop_success:
  "i < maxRetries svc \<Longrightarrow> outcomes w (calls w) \<Longrightarrow>
   attemptLoop svc p name i atts le cb w =
     (\<lparr>success = True, providerUsed = Some name, attempts = atts + 1, errorMessage = None\<rparr>,
      recordSuccess cb, w\<lparr>calls := Suc (calls w), events := events w @ [Send p]\<rparr>)"
  by (subst attemptLoop.simps) (simp add: provider_sendEmail_ok)

lemma attemptLoop_retry:
  "i < maxRetries svc \<Longrightarrow> \<not> outcomes w (calls w) \<Longrightarrow>
   attemptLoop svc p name i atts le cb w =
     attemptLoop svc p name (i + 1) (atts + 1) (failureMessage p) cb
       (if int i < int (maxRetries svc) - 1
        then delay (calculateExponentialBackoff svc i)
               (w\<lparr>calls := Suc (calls w), events := events w @ [Send p]\<rparr>)
        else w\<lparr>calls := Suc (calls w), events := events w @ [Send p]\<rparr>)"
  by (subst attemptLoop.simps) (simp add: provider_sendEmail_throws)

text \<open>What the loop never touches.\<close>

lemma attemptLoop_frame:
  "attemptLoop svc p name i atts le cb w = (r, cb', w') \<Longrightarrow>
   SentRequests w' = SentRequests w \<and> rateLimitWindow w' = rateLimitWindow w
   \<and> outcomes w' = outcomes w"
proof (induction svc p name i atts le cb w rule: attemptLoop.induct)
  case (1 svc p name i atts le cb w)
  show ?case
  proof (cases "i < maxRetries svc")
    case False
    with "1.prems" show ?thesis by (simp add: attemptLoop_exhausted)
  next
    case True
    show ?thesis
    proof (cases "outcomes w (calls w)")
      case ok: True
      with True "1.prems" show ?thesis by (auto simp: attemptLoop_success)
    next
      case ko: False
      let ?w1 = "w\<lparr>calls := Suc (calls w), events := events w @ [Send p]\<rparr>"
      let ?w2 = "if int i < int (maxRetries svc) - 1
                 then delay (calculateExponentialBackoff svc i) ?w1 else ?w1"
      have ps: "provider_sendEmail p w = (Some (failureMessage p), ?w1)"
        using ko by (rule provider_sendEmail_throws)
      have "attemptLoop svc p name (i + 1) (atts + 1) (failureMessage p) cb ?w2 = (r, cb', w')"
        using "1.prems" attemptLoop_retry [OF True ko] by simp
      from "1.IH" [OF True ps [symmetric] refl this]
      show ?thesis by (simp add: delay_def split: if_splits)
    qed
  qed
qed


lemma attemptSend_frame:
  assumes "attemptSendWithCircuitBreaker svc p cb name rq w = (r, cb', w')"
  shows "SentRequests w' = SentRequests w \<and> rateLimitWindow w' = rateLimitWindow w
         \<and> outcomes w' = outcomes w"
proof (cases "fst (canExecute (clock w) cb)")
  case True
  then have "attemptLoop svc p name 0 0 [] (snd (canExecute (clock w) cb)) w = (r, cb', w')"
    using assms by (simp add: attemptSendWithCircuitBreaker_def split: prod.splits bool.splits)
  then show ?thesis by (rule attemptLoop_frame)
next
  case False
  then show ?thesis
    using assms by (auto simp: attemptSendWithCircuitBreaker_def split: prod.splits bool.splits)
qed

lemma success_withStamp [simp]: "success (withStamp r t rid) = success r"
  by (simp add: withStamp_def)

lemma isRateLimited_frame:
  "windowSize (snd (isRateLimited now rl)) = windowSize rl
   \<and> maxRequests (snd (isRateLimited now rl)) = maxRequests rl"
  by (simp add: isRateLimited_def Let_def)

text \<open>
  C9. A call of \<open>sendEmail\<close> that returns \<open>success = false\<close> (duplicate, rate-limited, or
  both providers denied or exhausted) leaves \<open>SentRequests\<close> as it was, so no request id
  becomes a duplicate through it; a call that returns \<open>success = true\<close> adds exactly the
  request's id.
\<close>

theorem failed_send_not_marked:
  "(\<not> success (fst (sendEmail rq svc w)) \<longrightarrow>
      SentRequests (snd (snd (sendEmail rq svc w))) = SentRequests w
      \<and> (\<forall>rid. isDuplicate rid (snd (snd (sendEmail rq svc w))) = isDuplicate rid w))
   \<and> (success (fst (sendEmail rq svc w)) \<longrightarrow>
      SentRequests (snd (snd (sendEmail rq svc w))) = insert (requestId rq) (SentRequests w))"
proof -
  obtain limited rl where rl: "isRateLimited (clock w) (rateLimitWindow w) = (limited, rl)"
    by (cases "isRateLimited (clock w) (rateLimitWindow w)")
  let ?w0 = "w\<lparr>rateLimitWindow := rl\<rparr>"
  obtain r1 sg w1 where a1:
    "attemptSendWithCircuitBreaker svc SendGridProvider (sendGridCircuitBreaker svc)
       ''SendGrid'' rq ?w0 = (r1, sg, w1)"
    by (cases "attemptSendWithCircuitBreaker svc SendGridProvider (sendGridCircuitBreaker svc)
       ''SendGrid'' rq ?w0")
  let ?svc1 = "svc\<lparr>sendGridCircuitBreaker := sg\<rparr>"
  obtain r2 mg w2 where a2:
    "attemptSendWithCircuitBreaker ?svc1 MailgunProvider (mailgunCircuitBreaker ?svc1)
       ''Mailgun'' rq w1 = (r2, mg, w2)"
    by (cases "attemptSendWithCircuitBreaker ?svc1 MailgunProvider (mailgunCircuitBreaker ?svc1)
       ''Mailgun'' rq w1")
  have s1: "SentRequests w1 = SentRequests w"
    using attemptSend_frame [OF a1] by simp
  have s2: "SentRequests w2 = SentRequests w"
    using attemptSend_frame [OF a2] s1 by simp
  show ?thesis
    using rl a1 a2 s1 s2
    by (simp add: sendEmail_def Let_def isDuplicate_def markAsSent_def)
qed


lemmas service_eval =
  sendEmail_def attemptSendWithCircuitBreaker_def attemptLoop.simps provider_sendEmail_def
  delay_def calculateExponentialBackoff_def isDuplicate_def markAsSent_def isRateLimited_def
  canExecute_def recordFailure_def recordSuccess_def withStamp_def interpolate_def
  startWorld_def rateLimitWindow0_def newEmailService_def newCircuitBreaker_def
  exampleRequest_def trippedService_def allSucceed_def allFail_def onlyFifthSucceeds_def Let_def

theorem failed_send_not_marked_witness:
  "\<not> success (fst (sendEmail exampleRequest newEmailService (startWorld 0 allFail)))
   \<and> SentRequests (snd (snd (sendEmail exampleRequest newEmailService (startWorld 0 allFail)))) = {}
   \<and> success (fst (sendEmail exampleRequest newEmailService (startWorld 0 allSucceed)))
   \<and> SentRequests (snd (snd (sendEmail exampleRequest newEmailService (startWorld 0 allSucceed))))
       = {''req-1''}"
  using failed_send_not_marked [of exampleRequest newEmailService "startWorld 0 allFail"]
        failed_send_not_marked [of exampleRequest newEmailService "startWorld 0 allSucceed"]
  by (simp add: service_eval)

text \<open>
  C4 (amended). When the request id is already in \<open>SentRequests\<close>, \<open>sendEmail\<close> returns
  \<open>success = false\<close>, \<open>attempts = 0\<close> and the message
  \<^verbatim>\<open>Duplicate request - email already sent\<close>, stamped with the time of the call; the service
  (both breakers) and the whole process state (provider calls, events, rate-limit window)
  are returned unchanged.
\<close>

theorem duplicate_rejected:
  assumes "isDuplicate (requestId rq) w"
  shows "sendEmail rq svc w =
           (\<lparr>success = False, providerUsed = None, attempts = 0,
             errorMessage = Some ''Duplicate request - email already sent'',
             timestamp = clock w, statusRequestId = requestId rq\<rparr>, svc, w)"
  using assms by (simp add: sendEmail_def)

theorem duplicate_rejected_witness:
  "isDuplicate ''req-1'' (snd (snd (sendEmail exampleRequest newEmailService (startWorld 0 allSucceed))))
   \<and> (let (st, svc, w) = sendEmail exampleRequest newEmailService (startWorld 0 allSucceed)
      in sendEmail exampleRequest svc w =
           (\<lparr>success = False, providerUsed = None, attempts = 0,
             errorMessage = Some ''Duplicate request - email already sent'',
             timestamp = 0, statusRequestId = ''req-1''\<rparr>, svc, w))"
  using duplicate_rejected
          [of exampleRequest "snd (snd (sendEmail exampleRequest newEmailService (startWorld 0 allSucceed)))"
              "fst (snd (sendEmail exampleRequest newEmailService (startWorld 0 allSucceed)))"]
  by (simp add: service_eval)

text \<open>
  C4 as stated asks for the message \<^verbatim>\<open>duplicate request\<close>. After a first, successful
  send of a request, the second send of the same request carries another message.
\<close>

theorem duplicate_message_counterexample:
  "success (fst (sendEmail exampleRequest newEmailService (startWorld 0 allSucceed)))
   \<and> isDuplicate (requestId exampleRequest)
        (snd (snd (sendEmail exampleRequest newEmailService (startWorld 0 allSucceed))))
   \<and> errorMessage (fst (sendEmail exampleRequest
          (fst (snd (sendEmail exampleRequest newEmailService (startWorld 0 allSucceed))))
          (snd (snd (sendEmail exampleRequest newEmailService (startWorld 0 allSucceed))))))
       \<noteq> Some ''duplicate request''"
  by (simp add: service_eval)

text \<open>
  C10. When the SendGrid breaker admits, \<open>isAnyProviderAvailable\<close> returns true and
  \<open>getBestAvailableProvider\<close> returns \<^verbatim>\<open>SendGrid\<close> without consulting the Mailgun breaker,
  which is returned unchanged (an OPEN Mailgun breaker whose \<open>nextAttemptTime\<close> has passed
  stays OPEN). Only when the SendGrid breaker denies is the Mailgun breaker consulted, with
  the effect of its \<open>canExecute\<close>.
\<close>

theorem first_admitting_breaker_wins:
  "(fst (canExecute (clock w) (sendGridCircuitBreaker svc)) \<longrightarrow>
      fst (isAnyProviderAvailable svc w)
      \<and> mailgunCircuitBreaker (snd (isAnyProviderAvailable svc w)) = mailgunCircuitBreaker svc
      \<and> fst (getBestAvailableProvider svc w) = Some ''SendGrid''
      \<and> mailgunCircuitBreaker (snd (getBestAvailableProvider svc w)) = mailgunCircuitBreaker svc)
   \<and> (\<not> fst (canExecute (clock w) (sendGridCircuitBreaker svc)) \<longrightarrow>
      fst (isAnyProviderAvailable svc w) = fst (canExecute (clock w) (mailgunCircuitBreaker svc))
      \<and> mailgunCircuitBreaker (snd (isAnyProviderAvailable svc w))
          = snd (canExecute (clock w) (mailgunCircuitBreaker svc))
      \<and> fst (getBestAvailableProvider svc w)
          = (if fst (canExecute (clock w) (mailgunCircuitBreaker svc)) then Some ''Mailgun'' else None)
      \<and> mailgunCircuitBreaker (snd (getBestAvailableProvider svc w))
          = snd (canExecute (clock w) (mailgunCircuitBreaker svc)))"
  by (simp add: isAnyProviderAvailable_def getBestAvailableProvider_def Let_def split: prod.splits)

theorem first_admitting_breaker_wins_witness:
  "(let mg = recordFailures [0, 0, 0] (newCircuitBreaker ''Mailgun'' defaultConfig);
        svc = newEmailService\<lparr>mailgunCircuitBreaker := mg\<rparr>;
        w = startWorld 40000 allSucceed
    in state mg = OPEN \<and> nextAttemptTime mg \<le> clock w
       \<and> state (snd (canExecute (clock w) mg)) = HALF_OPEN
       \<and> fst (canExecute (clock w) (sendGridCircuitBreaker svc))
       \<and> fst (isAnyProviderAvailable svc w)
       \<and> state (mailgunCircuitBreaker (snd (isAnyProviderAvailable svc w))) = OPEN
       \<and> fst (getBestAvailableProvider svc w) = Some ''SendGrid''
       \<and> state (mailgunCircuitBreaker (snd (getBestAvailableProvider svc w))) = OPEN)"
  using first_admitting_breaker_wins
          [of "startWorld 40000 allSucceed"
              "newEmailService\<lparr>mailgunCircuitBreaker :=
                 recordFailures [0, 0, 0] (newCircuitBreaker ''Mailgun'' defaultConfig)\<rparr>"]
  by (simp add: service_eval defaultConfig_def)


lemma attemptSend_admitted:
  "fst (canExecute (clock w) cb) \<Longrightarrow>
   attemptSendWithCircuitBreaker svc p cb name rq w =
     attemptLoop svc p name 0 0 [] (snd (canExecute (clock w) cb)) w"
  by (cases "canExecute (clock w) cb") (auto simp: attemptSendWithCircuitBreaker_def)

lemma attemptSend_denied:
  "\<not> fst (canExecute (clock w) cb) \<Longrightarrow>
   attemptSendWithCircuitBreaker svc p cb name rq w =
     (\<lparr>success = False, providerUsed = Some name, attempts = 0,
       errorMessage = Some (''Circuit breaker is OPEN - '' @ name @ '' temporarily unavailable'')\<rparr>,
      snd (canExecute (clock w) cb), w)"
  by (cases "canExecute (clock w) cb") (auto simp: attemptSendWithCircuitBreaker_def)

lemmas loop_steps = attemptLoop_success attemptLoop_retry attemptLoop_exhausted
  delay_def calculateExponentialBackoff_def

text \<open>
  C6. With \<open>maxRetries = 3\<close> and \<open>baseDelay = 1000\<close>, an admitted attempt at a provider
  produces exactly these events: one call if the first call succeeds; call, wait 1000,
  call if the second succeeds; call, wait 1000, call, wait 2000, call otherwise. There is
  no wait before the first call, none after the third, and none after a successful call.
\<close>

theorem retry_delay_sequence:
  assumes "maxRetries svc = 3" and "baseDelay svc = 1000"
    and "fst (canExecute (clock w) cb)"
  shows "events (snd (snd (attemptSendWithCircuitBreaker svc p cb name rq w))) =
           events w @
             (if outcomes w (calls w) then [Send p]
              else if outcomes w (calls w + 1) then [Send p, Wait 1000, Send p]
              else [Send p, Wait 1000, Send p, Wait 2000, Send p])
       \<and> attempts (fst (attemptSendWithCircuitBreaker svc p cb name rq w)) =
           (if outcomes w (calls w) then 1 else if outcomes w (calls w + 1) then 2 else 3)
       \<and> success (fst (attemptSendWithCircuitBreaker svc p cb name rq w)) =
           (outcomes w (calls w) \<or> outcomes w (calls w + 1) \<or> outcomes w (calls w + 2))"
proof -
  have eq: "attemptSendWithCircuitBreaker svc p cb name rq w =
              attemptLoop svc p name 0 0 [] (snd (canExecute (clock w) cb)) w"
    using assms(3) by (rule attemptSend_admitted)
  show ?thesis
  proof (cases "outcomes w (calls w)")
    case True
    then show ?thesis using assms(1,2) by (simp add: eq loop_steps)
  next
    case f1: False
    show ?thesis
    proof (cases "outcomes w (Suc (calls w))")
      case True
      then show ?thesis using f1 assms(1,2) by (simp add: eq loop_steps)
    next
      case f2: False
      show ?thesis
      proof (cases "outcomes w (Suc (Suc (calls w)))")
        case True
        then show ?thesis using f1 f2 assms(1,2) by (simp add: eq loop_steps)
      next
        case False
        then show ?thesis using f1 f2 assms(1,2) by (simp add: eq loop_steps)
      qed
    qed
  qed
qed


theorem retry_delay_sequence_witness:
  "events (snd (snd (attemptSendWithCircuitBreaker newEmailService SendGridProvider
      (sendGridCircuitBreaker newEmailService) ''SendGrid'' exampleRequest (startWorld 0 allFail))))
     = [Send SendGridProvider, Wait 1000, Send SendGridProvider, Wait 2000, Send SendGridProvider]
   \<and> clock (snd (snd (attemptSendWithCircuitBreaker newEmailService SendGridProvider
      (sendGridCircuitBreaker newEmailService) ''SendGrid'' exampleRequest (startWorld 0 allFail))))
     = 3000
   \<and> events (snd (snd (attemptSendWithCircuitBreaker newEmailService SendGridProvider
      (sendGridCircuitBreaker newEmailService) ''SendGrid'' exampleRequest (startWorld 0 allSucceed))))
     = [Send SendGridProvider]"
  using retry_delay_sequence [of newEmailService "startWorld 0 allFail"
          "sendGridCircuitBreaker newEmailService" SendGridProvider "''SendGrid''" exampleRequest]
        retry_delay_sequence [of newEmailService "startWorld 0 allSucceed"
          "sendGridCircuitBreaker newEmailService" SendGridProvider "''SendGrid''" exampleRequest]
  by (simp add: service_eval)

text \<open>
  C8. A request that is neither a duplicate nor rate-limited, whose three SendGrid calls
  fail and whose second Mailgun call succeeds (both breakers admitting), returns
  \<open>success = true\<close>, \<open>providerUsed = Mailgun\<close>, \<open>attempts = 2\<close> and the time at which
  \<open>sendEmail\<close> started, although the clock has advanced by four base delays when it
  returns. The Mailgun breaker has received \<open>recordSuccess\<close>, the SendGrid breaker
  \<open>recordFailure\<close>, and the request id is in \<open>SentRequests\<close>.
\<close>

theorem fallback_succeeds_on_second_attempt:
  assumes retries: "maxRetries svc = 3"
    and fresh: "\<not> isDuplicate (requestId rq) w"
    and admitted: "\<not> fst (isRateLimited (clock w) (rateLimitWindow w))"
    and sg_admits: "fst (canExecute (clock w) (sendGridCircuitBreaker svc))"
    and sg_fails: "\<not> outcomes w (calls w)" "\<not> outcomes w (calls w + 1)" "\<not> outcomes w (calls w + 2)"
    and mg_admits: "fst (canExecute (clock w + baseDelay svc * 1 + baseDelay svc * 2)
                          (mailgunCircuitBreaker svc))"
    and mg_second: "\<not> outcomes w (calls w + 3)" "outcomes w (calls w + 4)"
  shows "fst (sendEmail rq svc w) =
           \<lparr>success = True, providerUsed = Some ''Mailgun'', attempts = 2, errorMessage = None,
            timestamp = clock w, statusRequestId = requestId rq\<rparr>
       \<and> mailgunCircuitBreaker (fst (snd (sendEmail rq svc w))) =
           recordSuccess (snd (canExecute (clock w + baseDelay svc * 1 + baseDelay svc * 2)
                                 (mailgunCircuitBreaker svc)))
       \<and> sendGridCircuitBreaker (fst (snd (sendEmail rq svc w))) =
           recordFailure (clock w + baseDelay svc * 1 + baseDelay svc * 2)
             (snd (canExecute (clock w) (sendGridCircuitBreaker svc)))
       \<and> isDuplicate (requestId rq) (snd (snd (sendEmail rq svc w)))
       \<and> clock (snd (snd (sendEmail rq svc w))) = clock w + 4 * baseDelay svc
       \<and> calls (snd (snd (sendEmail rq svc w))) = calls w + 5"
proof -
  obtain limited rl where rl: "isRateLimited (clock w) (rateLimitWindow w) = (limited, rl)"
    by (cases "isRateLimited (clock w) (rateLimitWindow w)")
  with admitted have nl: "\<not> limited" by simp
  let ?w0 = "w\<lparr>rateLimitWindow := rl\<rparr>"
  let ?sg = "snd (canExecute (clock w) (sendGridCircuitBreaker svc))"
  let ?t1 = "clock w + baseDelay svc * 1 + baseDelay svc * 2"
  let ?w1 = "?w0\<lparr>calls := calls w + 3,
                 events := events w @ [Send SendGridProvider, Wait (baseDelay svc * 1),
                   Send SendGridProvider, Wait (baseDelay svc * 2), Send SendGridProvider],
                 clock := ?t1\<rparr>"
  have a1: "attemptSendWithCircuitBreaker svc SendGridProvider (sendGridCircuitBreaker svc)
              ''SendGrid'' rq ?w0 =
            (\<lparr>success = False, providerUsed = Some ''SendGrid'', attempts = 3,
              errorMessage = Some ''SendGrid failed to send email''\<rparr>,
             recordFailure ?t1 ?sg, ?w1)"
    using retries sg_admits sg_fails
    by (simp add: attemptSend_admitted loop_steps)
  let ?svc1 = "svc\<lparr>sendGridCircuitBreaker := recordFailure ?t1 ?sg\<rparr>"
  let ?mg = "snd (canExecute ?t1 (mailgunCircuitBreaker svc))"
  have a2: "attemptSendWithCircuitBreaker ?svc1 MailgunProvider (mailgunCircuitBreaker ?svc1)
              ''Mailgun'' rq ?w1 =
            (\<lparr>success = True, providerUsed = Some ''Mailgun'', attempts = 2, errorMessage = None\<rparr>,
             recordSuccess ?mg,
             ?w1\<lparr>calls := calls w + 5,
                 events := events ?w1 @ [Send MailgunProvider, Wait (baseDelay svc * 1),
                   Send MailgunProvider],
                 clock := ?t1 + baseDelay svc * 1\<rparr>)"
    using retries mg_admits mg_second
    by (simp add: attemptSend_admitted loop_steps eval_nat_numeral)
  show ?thesis
    using fresh rl nl a1 a2
    by (simp add: sendEmail_def Let_def withStamp_def markAsSent_def isDuplicate_def)
qed


theorem fallback_succeeds_on_second_attempt_witness:
  "fst (sendEmail exampleRequest newEmailService (startWorld 500 onlyFifthSucceeds)) =
     \<lparr>success = True, providerUsed = Some ''Mailgun'', attempts = 2, errorMessage = None,
      timestamp = 500, statusRequestId = ''req-1''\<rparr>
   \<and> clock (snd (snd (sendEmail exampleRequest newEmailService (startWorld 500 onlyFifthSucceeds))))
       = 4500
   \<and> failureCount (sendGridCircuitBreaker
        (fst (snd (sendEmail exampleRequest newEmailService (startWorld 500 onlyFifthSucceeds))))) = 1
   \<and> isDuplicate ''req-1''
        (snd (snd (sendEmail exampleRequest newEmailService (startWorld 500 onlyFifthSucceeds))))"
  using fallback_succeeds_on_second_attempt
          [of newEmailService exampleRequest "startWorld 500 onlyFifthSucceeds"]
  by (simp add: service_eval)

lemma attemptLoop_failed:
  "attemptLoop svc p name i atts le cb w = (r, cb', w') \<Longrightarrow> \<not> success r \<Longrightarrow>
   attempts r = atts + (maxRetries svc - i)
   \<and> errorMessage r = Some (if i < maxRetries svc then failureMessage p else le)
   \<and> providerUsed r = Some name"
proof (induction svc p name i atts le cb w rule: attemptLoop.induct)
  case (1 svc p name i atts le cb w)
  show ?case
  proof (cases "i < maxRetries svc")
    case False
    with "1.prems" show ?thesis by (auto simp: attemptLoop_exhausted)
  next
    case True
    show ?thesis
    proof (cases "outcomes w (calls w)")
      case ok: True
      with True "1.prems" show ?thesis by (auto simp: attemptLoop_success)
    next
      case ko: False
      let ?w1 = "w\<lparr>calls := Suc (calls w), events := events w @ [Send p]\<rparr>"
      let ?w2 = "if int i < int (maxRetries svc) - 1
                 then delay (calculateExponentialBackoff svc i) ?w1 else ?w1"
      have ps: "provider_sendEmail p w = (Some (failureMessage p), ?w1)"
        using ko by (rule provider_sendEmail_throws)
      have "attemptLoop svc p name (i + 1) (atts + 1) (failureMessage p) cb ?w2 = (r, cb', w')"
        using "1.prems" attemptLoop_retry [OF True ko] by simp
      from "1.IH" [OF True ps [symmetric] refl this "1.prems"(2)] True
      show ?thesis by auto
    qed
  qed
qed

text \<open>
  C5 (amended). When a request that is neither a duplicate nor rate-limited fails at both
  providers, the result has \<open>success = false\<close>, \<open>providerUsed\<close> equal to
  \<^verbatim>\<open>Both providers failed or unavailable\<close>, \<open>attempts\<close> equal to the sum of the two
  providers' attempts, and the message \<^verbatim>\<open>Primary: <reason>, Fallback: <reason>\<close>. Each
  provider's attempts and reason are \<open>maxRetries\<close> and the provider's own failure message
  when its breaker admitted, and 0 and the breaker message naming the provider when it
  denied; so the attempts are 0 when both breakers deny.
\<close>

theorem all_providers_failed:
  assumes retries: "0 < maxRetries svc"
    and fresh: "\<not> isDuplicate (requestId rq) w"
    and rl: "isRateLimited (clock w) (rateLimitWindow w) = (False, rl)"
    and a1: "attemptSendWithCircuitBreaker svc SendGridProvider (sendGridCircuitBreaker svc)
               ''SendGrid'' rq (w\<lparr>rateLimitWindow := rl\<rparr>) = (r1, sg, w1)"
    and f1: "\<not> success r1"
    and a2: "attemptSendWithCircuitBreaker (svc\<lparr>sendGridCircuitBreaker := sg\<rparr>) MailgunProvider
               (mailgunCircuitBreaker svc) ''Mailgun'' rq w1 = (r2, mg, w2)"
    and f2: "\<not> success r2"
  shows "fst (sendEmail rq svc w) =
           \<lparr>success = False, providerUsed = Some ''Both providers failed or unavailable'',
            attempts = attempts r1 + attempts r2,
            errorMessage = Some (''Primary: '' @ interpolate (errorMessage r1)
                                 @ '', Fallback: '' @ interpolate (errorMessage r2)),
            timestamp = clock w, statusRequestId = requestId rq\<rparr>
       \<and> (if fst (canExecute (clock w) (sendGridCircuitBreaker svc))
          then attempts r1 = maxRetries svc
               \<and> errorMessage r1 = Some ''SendGrid failed to send email''
          else attempts r1 = 0
               \<and> errorMessage r1 = Some ''Circuit breaker is OPEN - SendGrid temporarily unavailable'')
       \<and> (if fst (canExecute (clock w1) (mailgunCircuitBreaker svc))
          then attempts r2 = maxRetries svc
               \<and> errorMessage r2 = Some ''Mailgun failed to send email''
          else attempts r2 = 0
               \<and> errorMessage r2 = Some ''Circuit breaker is OPEN - Mailgun temporarily unavailable'')"
proof (intro conjI)
  show "fst (sendEmail rq svc w) =
           \<lparr>success = False, providerUsed = Some ''Both providers failed or unavailable'',
            attempts = attempts r1 + attempts r2,
            errorMessage = Some (''Primary: '' @ interpolate (errorMessage r1)
                                 @ '', Fallback: '' @ interpolate (errorMessage r2)),
            timestamp = clock w, statusRequestId = requestId rq\<rparr>"
    using fresh rl a1 f1 a2 f2 by (simp add: sendEmail_def Let_def)
  show "if fst (canExecute (clock w) (sendGridCircuitBreaker svc))
        then attempts r1 = maxRetries svc
             \<and> errorMessage r1 = Some ''SendGrid failed to send email''
        else attempts r1 = 0
             \<and> errorMessage r1 = Some ''Circuit breaker is OPEN - SendGrid temporarily unavailable''"
  proof (cases "fst (canExecute (clock w) (sendGridCircuitBreaker svc))")
    case True
    then have "attemptLoop svc SendGridProvider ''SendGrid'' 0 0 []
                 (snd (canExecute (clock w) (sendGridCircuitBreaker svc)))
                 (w\<lparr>rateLimitWindow := rl\<rparr>) = (r1, sg, w1)"
      using a1 attemptSend_admitted
              [of "w\<lparr>rateLimitWindow := rl\<rparr>" "sendGridCircuitBreaker svc" svc SendGridProvider
                  "''SendGrid''" rq]
      by simp
    from attemptLoop_failed [OF this f1] True retries show ?thesis by simp
  next
    case False
    then show ?thesis
      using a1 attemptSend_denied
              [of "w\<lparr>rateLimitWindow := rl\<rparr>" "sendGridCircuitBreaker svc" svc SendGridProvider
                  "''SendGrid''" rq]
      by auto
  qed
  show "if fst (canExecute (clock w1) (mailgunCircuitBreaker svc))
        then attempts r2 = maxRetries svc
             \<and> errorMessage r2 = Some ''Mailgun failed to send email''
        else attempts r2 = 0
             \<and> errorMessage r2 = Some ''Circuit breaker is OPEN - Mailgun temporarily unavailable''"
  proof (cases "fst (canExecute (clock w1) (mailgunCircuitBreaker svc))")
    case True
    then have "attemptLoop (svc\<lparr>sendGridCircuitBreaker := sg\<rparr>) MailgunProvider ''Mailgun'' 0 0 []
                 (snd (canExecute (clock w1) (mailgunCircuitBreaker svc))) w1 = (r2, mg, w2)"
      using a2 attemptSend_admitted
              [of w1 "mailgunCircuitBreaker svc" "svc\<lparr>sendGridCircuitBreaker := sg\<rparr>"
                  MailgunProvider "''Mailgun''" rq]
      by simp
    from attemptLoop_failed [OF this f2] True retries show ?thesis by simp
  next
    case False
    then show ?thesis
      using a2 attemptSend_denied
              [of w1 "mailgunCircuitBreaker svc" "svc\<lparr>sendGridCircuitBreaker := sg\<rparr>"
                  MailgunProvider "''Mailgun''" rq]
      by auto
  qed
qed

text \<open>
  C5 as stated asks for \<open>providerUsed\<close> equal to \<^verbatim>\<open>none\<close>. With both breakers OPEN and
  denying, the result names no provider that way.
\<close>

theorem provider_used_counterexample:
  "\<not> fst (canExecute (clock (startWorld 1000 allSucceed)) (sendGridCircuitBreaker trippedService))
   \<and> \<not> fst (canExecute (clock (startWorld 1000 allSucceed)) (mailgunCircuitBreaker trippedService))
   \<and> \<not> success (fst (sendEmail exampleRequest trippedService (startWorld 1000 allSucceed)))
   \<and> attempts (fst (sendEmail exampleRequest trippedService (startWorld 1000 allSucceed))) = 0
   \<and> providerUsed (fst (sendEmail exampleRequest trippedService (startWorld 1000 allSucceed)))
       \<noteq> Some ''none''"
  by (simp add: service_eval)


theorem all_providers_failed_witness:
  "fst (sendEmail exampleRequest trippedService (startWorld 1000 allSucceed)) =
     \<lparr>success = False, providerUsed = Some ''Both providers failed or unavailable'',
      attempts = 0,
      errorMessage = Some ''Primary: Circuit breaker is OPEN - SendGrid temporarily unavailable, Fallback: Circuit breaker is OPEN - Mailgun temporarily unavailable'',
      timestamp = 1000, statusRequestId = ''req-1''\<rparr>
   \<and> fst (sendEmail exampleRequest newEmailService (startWorld 0 allFail)) =
     \<lparr>success = False, providerUsed = Some ''Both providers failed or unavailable'',
      attempts = 6,
      errorMessage = Some ''Primary: SendGrid failed to send email, Fallback: Mailgun failed to send email'',
      timestamp = 0, statusRequestId = ''req-1''\<rparr>"
proof -
  let ?w = "startWorld 1000 allSucceed"
  let ?rl = "snd (isRateLimited (clock ?w) (rateLimitWindow ?w))"
  let ?A1 = "attemptSendWithCircuitBreaker trippedService SendGridProvider
               (sendGridCircuitBreaker trippedService) ''SendGrid'' exampleRequest
               (?w\<lparr>rateLimitWindow := ?rl\<rparr>)"
  let ?A2 = "attemptSendWithCircuitBreaker
               (trippedService\<lparr>sendGridCircuitBreaker := fst (snd ?A1)\<rparr>) MailgunProvider
               (mailgunCircuitBreaker trippedService) ''Mailgun'' exampleRequest (snd (snd ?A1))"
  let ?v = "startWorld 0 allFail"
  let ?rk = "snd (isRateLimited (clock ?v) (rateLimitWindow ?v))"
  let ?B1 = "attemptSendWithCircuitBreaker newEmailService SendGridProvider
               (sendGridCircuitBreaker newEmailService) ''SendGrid'' exampleRequest
               (?v\<lparr>rateLimitWindow := ?rk\<rparr>)"
  let ?B2 = "attemptSendWithCircuitBreaker
               (newEmailService\<lparr>sendGridCircuitBreaker := fst (snd ?B1)\<rparr>) MailgunProvider
               (mailgunCircuitBreaker newEmailService) ''Mailgun'' exampleRequest (snd (snd ?B1))"
  show ?thesis
    using all_providers_failed
            [where svc = trippedService and rq = exampleRequest and w = ?w and rl = ?rl
               and ?r1.0 = "fst ?A1" and sg = "fst (snd ?A1)" and ?w1.0 = "snd (snd ?A1)"
               and ?r2.0 = "fst ?A2" and mg = "fst (snd ?A2)" and ?w2.0 = "snd (snd ?A2)"]
          all_providers_failed
            [where svc = newEmailService and rq = exampleRequest and w = ?v and rl = ?rk
               and ?r1.0 = "fst ?B1" and sg = "fst (snd ?B1)" and ?w1.0 = "snd (snd ?B1)"
               and ?r2.0 = "fst ?B2" and mg = "fst (snd ?B2)" and ?w2.0 = "snd (snd ?B2)"]
    by (simp add: service_eval)
qed

section \<open>Properties of the rate limiter\<close>

lemma length_filter_mono:
  "(\<And>x. x \<in> set xs \<Longrightarrow> P x \<Longrightarrow> Q x) \<Longrightarrow> length (filter P xs) \<le> length (filter Q xs)"
  by (induction xs) auto

lemma windowInv_step:
  assumes inv: "windowInv W M rl H t0" and le: "t0 \<le> t"
    and call: "isRateLimited t rl = (r, rl')"
  shows "windowInv W M rl' (if r then H else H @ [t]) t
       \<and> r = (M \<le> length (filter (\<lambda>x. t - x < W) H))"
proof -
  let ?live = "\<lambda>t x. t - x < W"
  let ?ts1 = "filter (?live t) (timestamps rl)"
  from inv have W: "windowSize rl = W" and M: "maxRequests rl = M"
    and I1: "\<And>u. t0 \<le> u \<Longrightarrow> filter (?live u) (timestamps rl) = filter (?live u) H"
    and I2: "mset (timestamps rl) \<subseteq># mset H"
    and I3: "\<And>a. length (filter (\<lambda>x. a \<le> x \<and> x < a + W) H) \<le> M"
    and I4: "\<And>a. length (filter (\<lambda>x. a < x \<and> x \<le> a + W) H) \<le> M"
    by (auto simp: windowInv_def)
  have ts1: "?ts1 = filter (?live t) H" using I1 [OF le] .
  have r: "r = (M \<le> length ?ts1)"
    using call W M by (auto simp: isRateLimited_def Let_def split: if_splits)
  have later: "filter (?live u) ?ts1 = filter (?live u) H" if "t \<le> u" for u
  proof -
    have "filter (?live u) ?ts1 = filter (?live u) (timestamps rl)"
      using that by (auto intro: filter_cong)
    also have "\<dots> = filter (?live u) H" using I1 [of u] le that by simp
    finally show ?thesis .
  qed
  have sub1: "mset ?ts1 \<subseteq># mset H"
    using I2 by (metis mset_filter multiset_filter_subset subset_mset.order_trans)
  show ?thesis
  proof (cases r)
    case True
    then have rl': "rl' = rl\<lparr>timestamps := ?ts1\<rparr>"
      using call W by (auto simp: isRateLimited_def Let_def split: if_splits)
    have "windowInv W M rl' H t"
      unfolding windowInv_def using W M later sub1 I3 I4 by (simp add: rl')
    with True r ts1 show ?thesis by simp
  next
    case False
    then have rl': "rl' = rl\<lparr>timestamps := ?ts1 @ [t]\<rparr>"
      using call W by (auto simp: isRateLimited_def Let_def split: if_splits)
    from False r ts1 have room: "length (filter (?live t) H) < M" by simp
    have b3: "length (filter (\<lambda>x. a \<le> x \<and> x < a + W) (H @ [t])) \<le> M" for a
    proof (cases "a \<le> t \<and> t < a + W")
      case True
      have "length (filter (\<lambda>x. a \<le> x \<and> x < a + W) H) \<le> length (filter (?live t) H)"
        using True by (intro length_filter_mono) auto
      with room True show ?thesis by simp
    next
      case False
      with I3 [of a] show ?thesis by auto
    qed
    have b4: "length (filter (\<lambda>x. a < x \<and> x \<le> a + W) (H @ [t])) \<le> M" for a
    proof (cases "a < t \<and> t \<le> a + W")
      case True
      have "length (filter (\<lambda>x. a < x \<and> x \<le> a + W) H) \<le> length (filter (?live t) H)"
        using True by (intro length_filter_mono) auto
      with room True show ?thesis by simp
    next
      case False
      with I4 [of a] show ?thesis by auto
    qed
    have "windowInv W M rl' (H @ [t]) t"
      unfolding windowInv_def using W M later sub1 b3 b4 by (simp add: rl')
    with False r ts1 show ?thesis by simp
  qed
qed


lemma admitted_Cons:
  "admitted (t # ts) (r # rs) = (if r then [] else [t]) @ admitted ts rs"
  by (simp add: admitted_def)

lemma admitted_Nil [simp]: "admitted [] rs = []"
  by (simp add: admitted_def)

lemma windowInv_run:
  assumes "windowInv W M rl H t0" and "sorted (t0 # ts)"
    and "isRateLimitedCalls ts rl = (rs, rl')"
  shows "length rs = length ts
       \<and> windowInv W M rl' (H @ admitted ts rs) (last (t0 # ts))
       \<and> (\<forall>i<length ts. rs ! i =
            (M \<le> length (filter (\<lambda>x. ts ! i - x < W) (H @ admitted (take i ts) (take i rs)))))"
  using assms
proof (induction ts arbitrary: rl H t0 rs)
  case Nil
  then show ?case by simp
next
  case (Cons t ts)
  obtain r rl1 where step: "isRateLimited t rl = (r, rl1)"
    by (cases "isRateLimited t rl")
  obtain rs1 where rest: "isRateLimitedCalls ts rl1 = (rs1, rl')" and rs: "rs = r # rs1"
    using Cons.prems(3) step by (auto split: prod.splits)
  let ?H1 = "if r then H else H @ [t]"
  from Cons.prems(2) have le: "t0 \<le> t" and sorted1: "sorted (t # ts)" by auto
  from windowInv_step [OF Cons.prems(1) le step]
  have inv1: "windowInv W M rl1 ?H1 t"
    and r: "r = (M \<le> length (filter (\<lambda>x. t - x < W) H))" by auto
  from Cons.IH [OF inv1 sorted1 rest]
  have len: "length rs1 = length ts"
    and inv': "windowInv W M rl' (?H1 @ admitted ts rs1) (last (t # ts))"
    and each: "\<And>i. i < length ts \<Longrightarrow> rs1 ! i =
            (M \<le> length (filter (\<lambda>x. ts ! i - x < W) (?H1 @ admitted (take i ts) (take i rs1))))"
    by auto
  have H1: "?H1 @ xs = H @ (if r then [] else [t]) @ xs" for xs by simp
  have "rs ! i = (M \<le> length (filter (\<lambda>x. (t # ts) ! i - x < W)
                    (H @ admitted (take i (t # ts)) (take i rs))))"
    if "i < length (t # ts)" for i
  proof (cases i)
    case 0
    then show ?thesis using r rs by simp
  next
    case (Suc j)
    with that have "j < length ts" by simp
    from each [OF this] show ?thesis
      unfolding Suc rs by (simp only: nth_Cons_Suc take_Suc_Cons admitted_Cons H1)
  qed
  moreover have "windowInv W M rl' (H @ admitted (t # ts) rs) (last (t0 # t # ts))"
    using inv' unfolding rs admitted_Cons H1 by simp
  ultimately show ?case using len rs by simp
qed

text \<open>
  C7. Start from the empty window and call \<open>isRateLimited\<close> at non-decreasing times.
  Then (1) any half-open interval of length \<open>windowSize\<close>, closed at either end, holds at
  most \<open>maxRequests\<close> admitted call times; (2) a call is rejected exactly when at least
  \<open>maxRequests\<close> earlier admitted calls are still inside the window that ends at the call
  (\<open>now - timestamp < windowSize\<close>), so rejection lasts until the oldest of them has aged
  out; (3) the timestamps recorded in the window are among the admitted ones, with
  multiplicity: a rejected call is never recorded.
\<close>

theorem rate_limiter_window_bound:
  assumes "sorted ts" and "timestamps rl = []"
    and "isRateLimitedCalls ts rl = (rs, rl')"
  shows "length rs = length ts
       \<and> (\<forall>a. length (filter (\<lambda>x. a \<le> x \<and> x < a + windowSize rl) (admitted ts rs)) \<le> maxRequests rl)
       \<and> (\<forall>a. length (filter (\<lambda>x. a < x \<and> x \<le> a + windowSize rl) (admitted ts rs)) \<le> maxRequests rl)
       \<and> (\<forall>i<length ts. rs ! i =
            (maxRequests rl \<le> length (filter (\<lambda>x. ts ! i - x < windowSize rl)
                                     (admitted (take i ts) (take i rs)))))
       \<and> mset (timestamps rl') \<subseteq># mset (admitted ts rs)"
proof -
  let ?t0 = "case ts of [] \<Rightarrow> 0 | t # _ \<Rightarrow> t"
  have inv0: "windowInv (windowSize rl) (maxRequests rl) rl [] ?t0"
    using assms(2) by (simp add: windowInv_def)
  have "sorted (?t0 # ts)" using assms(1) by (cases ts) auto
  from windowInv_run [OF inv0 this assms(3)]
  show ?thesis by (simp add: windowInv_def)
qed


theorem rate_limiter_window_bound_witness:
  "sorted [0, 0, 0, 0, 0, 0, 0, 0, 0, 0, 0, 59999, 60000 :: int]
   \<and> isRateLimitedCalls [0, 0, 0, 0, 0, 0, 0, 0, 0, 0, 0, 59999, 60000] rateLimitWindow0 =
       ([False, False, False, False, False, False, False, False, False, False, True, True, False],
        rateLimitWindow0\<lparr>timestamps := [60000]\<rparr>)
   \<and> admitted [0, 0, 0, 0, 0, 0, 0, 0, 0, 0, 0, 59999, 60000]
        [False, False, False, False, False, False, False, False, False, False, True, True, False]
       = [0, 0, 0, 0, 0, 0, 0, 0, 0, 0, 60000]
   \<and> length (filter (\<lambda>x. 0 \<le> x \<and> x < 0 + windowSize rateLimitWindow0)
        (admitted [0, 0, 0, 0, 0, 0, 0, 0, 0, 0, 0, 59999, 60000]
          [False, False, False, False, False, False, False, False, False, False, True, True, False]))
       \<le> maxRequests rateLimitWindow0"
proof -
  have run: "isRateLimitedCalls [0, 0, 0, 0, 0, 0, 0, 0, 0, 0, 0, 59999, 60000] rateLimitWindow0 =
       ([False, False, False, False, False, False, False, False, False, False, True, True, False],
        rateLimitWindow0\<lparr>timestamps := [60000]\<rparr>)"
    by (simp add: isRateLimited_def rateLimitWindow0_def Let_def)
  have srt: "sorted [0, 0, 0, 0, 0, 0, 0, 0, 0, 0, 0, 59999, 60000 :: int]" by simp
  have emp: "timestamps rateLimitWindow0 = []" by (simp add: rateLimitWindow0_def)
  from rate_limiter_window_bound [OF srt emp run]
  have "length (filter (\<lambda>x. 0 \<le> x \<and> x < 0 + windowSize rateLimitWindow0)
        (admitted [0, 0, 0, 0, 0, 0, 0, 0, 0, 0, 0, 59999, 60000]
          [False, False, False, False, False, False, False, False, False, False, True, True, False]))
       \<le> maxRequests rateLimitWindow0"
    by blast
  with run srt show ?thesis by (simp add: admitted_def)
qed

end
